theory Spec2Isabelle
  imports Complex_Main "HOL-Library.Product_Lexorder"
begin

section \<open>AWoL-MRF: a shallow embedding of \<^verbatim>\<open>Versions/pub_mrf2.4.py\<close>\<close>

text \<open>
  The class \<^verbatim>\<open>AWoL_MRF\<close> is modelled by a record of its attributes and one function per
  method; a method that mutates \<^verbatim>\<open>self\<close> takes the record and returns the updated one, and
  every exception of the source is a value \<open>Inl e\<close> of the result type.

  Conventions of the embedding:
  \<^item> a 3D numpy array is the list of its elements in C order (what \<^verbatim>\<open>ravel()\<close> returns),
    together with its shape \<open>(D, H, W)\<close>; the arrays are the ones the constructor works
    on, that is, after the optional bounding-box slicing;
  \<^item> label values are \<open>int\<close>; a store into the \<^verbatim>\<open>np.int16\<close> arrays \<^verbatim>\<open>labels\<close> and
    \<^verbatim>\<open>new_labels\<close> goes through \<open>to_int16\<close>, a store into the \<^verbatim>\<open>np.uint16\<close> tally through
    \<open>uint16_incr\<close>;
  \<^item> \<^verbatim>\<open>float\<close> values (intensities, thresholds, beta, energies) are \<open>real\<close>: rounding,
    overflow and underflow of IEEE doubles are not modelled, but the values \<^verbatim>\<open>inf\<close> and
    \<^verbatim>\<open>nan\<close> that the source produces by itself (the initial \<^verbatim>\<open>mrf_energy\<close>, a division by
    a zero count, a zero standard deviation) are written out.
\<close>

subsection \<open>Exceptions\<close>

datatype error =
    NotAPositiveInt int       \<comment> \<open>\<^verbatim>\<open>AssertionError("%r is not a positive int")\<close>\<close>
  | NotInRange real           \<comment> \<open>\<^verbatim>\<open>AssertionError("%r not in range [0.0, 1.0]")\<close>\<close>
  | LabelsNotTheSame nat      \<comment> \<open>\<^verbatim>\<open>AssertionError("Labels in {0} not the same as in {1}.")\<close>\<close>
  | ThresholdCountMismatch    \<comment> \<open>\<^verbatim>\<open>AssertionError("Number of labels does not match ...")\<close>\<close>
  | IndexError
  | KeyError
  | AttributeError
  | UnboundLocalError
  | ValueError

text \<open>Sequencing of steps that may raise: the first exception ends the computation.\<close>

definition bind_err :: "error + 'a \<Rightarrow> ('a \<Rightarrow> error + 'b) \<Rightarrow> error + 'b" where
  "bind_err r f = (case r of Inl e \<Rightarrow> Inl e | Inr x \<Rightarrow> f x)"

subsection \<open>Machine integers\<close>

definition to_int16 :: "int \<Rightarrow> int" where
  "to_int16 v = (v + 32768) mod 65536 - 32768"

definition uint16_incr :: "nat \<Rightarrow> nat" where
  "uint16_incr c = (c + 1) mod 65536"

subsection \<open>numpy helpers\<close>

definition np_unique :: "int list \<Rightarrow> int list" where
  "np_unique xs = sort (remdups xs)"

text \<open>\<^verbatim>\<open>np.argmax\<close> of a one-dimensional array: the index of the first occurrence of the
  maximum (the scan keeps the earlier index unless a strictly larger value is met).\<close>

fun argmax_from :: "nat \<Rightarrow> nat \<Rightarrow> nat \<Rightarrow> nat list \<Rightarrow> nat" where
  "argmax_from i bi bv [] = bi"
| "argmax_from i bi bv (x # xs) =
     (if bv < x then argmax_from (Suc i) i x xs else argmax_from (Suc i) bi bv xs)"

fun argmax_list :: "nat list \<Rightarrow> nat" where
  "argmax_list [] = 0"
| "argmax_list (x # xs) = argmax_from (Suc 0) 0 x xs"

fun amax_list :: "nat list \<Rightarrow> nat" where
  "amax_list [] = 0"
| "amax_list (x # xs) = max x (amax_list xs)"

definition column :: "'a list list \<Rightarrow> nat \<Rightarrow> 'a list" where
  "column m p = map (\<lambda>row. row ! p) m"

subsection \<open>The constructor\<close>

definition positive_int :: "int \<Rightarrow> error + int" where
  "positive_int x = (if x < 0 then Inl (NotAPositiveInt x) else Inr x)"

definition restricted_float :: "real \<Rightarrow> error + real" where
  "restricted_float x = (if x < 0 \<or> x > 1 then Inl (NotInRange x) else Inr x)"

text \<open>Lines 50-51: \<^verbatim>\<open>for threshold in thresholds: threshold = restricted_float(threshold)\<close>.\<close>

fun check_thresholds :: "real list \<Rightarrow> error + unit" where
  "check_thresholds [] = Inr ()"
| "check_thresholds (t # ts) =
     bind_err (restricted_float t) (\<lambda>_. check_thresholds ts)"

text \<open>Lines 72-73: every label's plane of \<^verbatim>\<open>votes\<close> is incremented where the image holds
  that label.\<close>

definition add_votes :: "int list \<Rightarrow> int list \<Rightarrow> nat list list \<Rightarrow> nat list list" where
  "add_votes label_values label_array votes =
     map2 (\<lambda>value plane. map2 (\<lambda>a c. if a = value then c + 1 else c) label_array plane)
       label_values votes"

text \<open>Lines 59-73 for the images after the first: \<open>n\<close> is the position of the image.\<close>

fun count_rest :: "int list \<Rightarrow> nat \<Rightarrow> int list list \<Rightarrow> nat list list \<Rightarrow> error + nat list list" where
  "count_rest label_values n [] votes = Inr votes"
| "count_rest label_values n (img # imgs) votes =
     (if np_unique img \<noteq> label_values then Inl (LabelsNotTheSame n)
      else count_rest label_values (Suc n) imgs (add_votes label_values img votes))"

text \<open>Lines 58-73. With no image at all the loop body never runs and
  \<^verbatim>\<open>self.label_values\<close> is read unset at line 75.\<close>

fun count_votes :: "int list list \<Rightarrow> error + (int list \<times> nat list list)" where
  "count_votes [] = Inl AttributeError"
| "count_votes (img # imgs) =
     (let label_values = np_unique img;
          votes = replicate (length label_values) (replicate (length img) 0)
      in bind_err (count_rest label_values (Suc 0) imgs (add_votes label_values img votes))
           (\<lambda>votes'. Inr (label_values, votes')))"

text \<open>Lines 79-80: \<^verbatim>\<open>while len(thresholds) < len(self.label_values):
  thresholds.append(thresholds[-1])\<close>; \<^verbatim>\<open>thresholds[-1]\<close> of an empty list raises.\<close>

function pad_loop :: "nat \<Rightarrow> real list \<Rightarrow> error + real list" where
  "pad_loop nl thresholds =
     (if length thresholds < nl
      then (if thresholds = [] then Inl IndexError
            else pad_loop nl (thresholds @ [last thresholds]))
      else Inr thresholds)"
  by pat_completeness auto
termination
  by (relation "measure (\<lambda>(nl, thresholds). nl - length thresholds)") auto

declare pad_loop.simps [simp del]

text \<open>Lines 75-80.\<close>

definition pad_thresholds :: "nat \<Rightarrow> bool \<Rightarrow> real list \<Rightarrow> error + real list" where
  "pad_thresholds nl same_threshold thresholds =
     (if nl \<noteq> length thresholds
      then (if \<not> same_threshold then Inl ThresholdCountMismatch else pad_loop nl thresholds)
      else Inr thresholds)"

text \<open>Line 92: the number of labels with at least one vote at voxel \<open>p\<close>.\<close>

definition n_labels :: "nat list list \<Rightarrow> nat \<Rightarrow> nat" where
  "n_labels votes p = length (filter (\<lambda>c. c \<noteq> 0) (column votes p))"

text \<open>Lines 93-94 at one voxel. \<^verbatim>\<open>1.0/n_labels\<close> is \<^verbatim>\<open>inf\<close> where no label has a vote, and
  no count reaches it.\<close>

definition above_threshold ::
  "nat list list \<Rightarrow> nat list \<Rightarrow> nat list \<Rightarrow> real list \<Rightarrow> nat \<Rightarrow> nat \<Rightarrow> nat \<Rightarrow> bool" where
  "above_threshold votes mode0 mode1 thresholds nimg i p =
     (mode0 ! p = i \<and>
      (n_labels votes p = 1 \<or>
       (n_labels votes p \<noteq> 0 \<and>
        (1 / real (n_labels votes p) + thresholds ! i) * real nimg \<le> real (mode1 ! p))))"

text \<open>Lines 91-95: the loop over \<^verbatim>\<open>enumerate(self.label_values.tolist())\<close>.\<close>

fun classify :: "nat list list \<Rightarrow> nat list \<Rightarrow> nat list \<Rightarrow> real list \<Rightarrow> nat \<Rightarrow>
    nat \<Rightarrow> int list \<Rightarrow> int list \<Rightarrow> int list" where
  "classify votes mode0 mode1 thresholds nimg i [] labels = labels"
| "classify votes mode0 mode1 thresholds nimg i (value # values) labels =
     classify votes mode0 mode1 thresholds nimg (Suc i) values
       (map (\<lambda>p. if above_threshold votes mode0 mode1 thresholds nimg i p
                 then to_int16 value else labels ! p) [0..<length labels])"

record awol =
  beta :: real
  mixing_ratio :: int
  patch_length :: int
  shape :: "nat \<times> nat \<times> nat"
  label_values :: "int list"
  mode0 :: "nat list"                 \<comment> \<open>\<^verbatim>\<open>self.mode[0]\<close>: index of the majority label\<close>
  mode1 :: "nat list"                 \<comment> \<open>\<^verbatim>\<open>self.mode[1]\<close>: its number of votes\<close>
  labels :: "int list"
  intensity :: "real list"
  lcv :: "nat list"
  no_lcv :: bool
  neighbors_small :: "nat \<rightharpoonup> nat list"
  neighbors_big :: "nat \<rightharpoonup> nat list"
  label_count :: "nat list list"
  new_labels :: "int list"
  seeds :: "nat list"
  patches :: "nat list list"
  lcvp :: "nat list"
  patch_stats :: "(int \<times> real \<times> real) list"
  do_walk :: bool
  seq :: "nat list"

text \<open>\<^verbatim>\<open>__init__\<close> with \<^verbatim>\<open>bbox=None\<close>. Attributes that the constructor does not assign are
  given empty values; the methods below assign them before they read them.\<close>

definition awol_init ::
  "int list list \<Rightarrow> real list \<Rightarrow> nat \<times> nat \<times> nat \<Rightarrow> real \<Rightarrow> int \<Rightarrow> int \<Rightarrow> bool \<Rightarrow> real list
     \<Rightarrow> error + awol" where
  "awol_init labelimg_list brainimg shp b mr pl same_threshold thresholds =
     bind_err (positive_int mr) (\<lambda>mr'.
     bind_err (positive_int pl) (\<lambda>pl'.
     bind_err (check_thresholds thresholds) (\<lambda>_.
     bind_err (count_votes labelimg_list) (\<lambda>(lvs, votes).
     bind_err (pad_thresholds (length lvs) same_threshold thresholds) (\<lambda>thr.
       if lvs = [] then Inl ValueError
       else
         let nvox = length (hd votes);
             m0 = map (\<lambda>p. argmax_list (column votes p)) [0..<nvox];
             m1 = map (\<lambda>p. amax_list (column votes p)) [0..<nvox]
         in Inr \<lparr> beta = b, mixing_ratio = mr', patch_length = pl', shape = shp,
                  label_values = lvs, mode0 = m0, mode1 = m1,
                  labels = classify votes m0 m1 thr (length labelimg_list) 0 lvs
                             (replicate nvox (- 1)),
                  intensity = brainimg,
                  lcv = [], no_lcv = False,
                  neighbors_small = Map.empty, neighbors_big = Map.empty,
                  label_count = [], new_labels = [],
                  seeds = [], patches = [], lcvp = [], patch_stats = [],
                  do_walk = False, seq = [] \<rparr>)))))"

subsection \<open>Voxel geometry and the KDTree ball queries\<close>

text \<open>\<^verbatim>\<open>np.unravel_index\<close> for a C-ordered array of shape \<open>(D, H, W)\<close>.\<close>

definition unravel_index :: "nat \<Rightarrow> nat \<times> nat \<times> nat \<Rightarrow> nat \<times> nat \<times> nat" where
  "unravel_index p shp =
     (case shp of (d, h, w) \<Rightarrow> (p div (h * w), (p div w) mod h, p mod w))"

definition dist2 :: "nat \<times> nat \<times> nat \<Rightarrow> nat \<times> nat \<times> nat \<Rightarrow> nat" where
  "dist2 a b =
     (case a of (z1, y1, x1) \<Rightarrow> case b of (z2, y2, x2) \<Rightarrow>
        nat ((int z1 - int z2)\<^sup>2 + (int y1 - int y2)\<^sup>2 + (int x1 - int x2)\<^sup>2))"

text \<open>
  \<^verbatim>\<open>scipy.spatial.KDTree.query_ball_tree\<close> is library code; it is modelled from its
  documented contract: for a point of the first tree, the indices of all points of the
  second tree within Euclidean distance \<open>r\<close>. The second tree holds every voxel of the
  volume in C order, so the index of a point is its raveled voxel index and the result is
  ascending. Coordinates are integers, hence the test on the squared distance; the radius
  is passed squared (\<open>1\<close>, \<open>3\<close> for \<^verbatim>\<open>np.sqrt(3)\<close>, \<open>patch_length\<^sup>2\<close>).
\<close>

definition query_ball :: "nat \<times> nat \<times> nat \<Rightarrow> nat \<Rightarrow> nat \<Rightarrow> nat \<Rightarrow> nat list" where
  "query_ball shp nvox r2 p =
     filter (\<lambda>q. dist2 (unravel_index p shp) (unravel_index q shp) \<le> r2) [0..<nvox]"

subsection \<open>\<^verbatim>\<open>find_lcv\<close>\<close>

text \<open>The inner function \<^verbatim>\<open>neighbors\<close> (lines 144-153): each low-confidence voxel is
  removed from its own ball; the ball is already ascending.\<close>

definition neighbors :: "nat \<times> nat \<times> nat \<Rightarrow> nat \<Rightarrow> nat list \<Rightarrow> nat \<Rightarrow> (nat \<rightharpoonup> nat list)" where
  "neighbors shp nvox lcvs r2 =
     map_of (map (\<lambda>p. (p, sort (remove1 p (query_ball shp nvox r2 p)))) lcvs)"

definition find_lcv :: "awol \<Rightarrow> awol" where
  "find_lcv st =
     (let lcvs = filter (\<lambda>p. labels st ! p = - 1) [0..<length (labels st)] in
      if lcvs = [] then st \<lparr> lcv := lcvs, no_lcv := True \<rparr>
      else st \<lparr> lcv := lcvs, no_lcv := False,
                neighbors_small := neighbors (shape st) (length (labels st)) lcvs 1,
                neighbors_big := neighbors (shape st) (length (labels st)) lcvs 3,
                label_count :=
                  replicate (length (labels st)) (replicate (length (label_values st)) 0),
                new_labels := labels st \<rparr>)"

subsection \<open>\<^verbatim>\<open>find_seeds\<close>\<close>

text \<open>Line 171: \<^verbatim>\<open>n_hcv = sum(lflat[self.neighbors_big[lcv]] != -1)\<close>.\<close>

definition n_hcv :: "awol \<Rightarrow> nat list \<Rightarrow> nat" where
  "n_hcv st nb = length (filter (\<lambda>q. labels st ! q \<noteq> - 1) nb)"

text \<open>Lines 170-175: the loop over \<^verbatim>\<open>self.lcv\<close>, with the two lists it appends to; the
  result pairs every seed with its confidence level, as \<^verbatim>\<open>zip(confidence_level,
  self.seeds)\<close> does.\<close>

fun seed_scan :: "awol \<Rightarrow> nat list \<Rightarrow> (nat \<times> nat) list \<Rightarrow> error + (nat \<times> nat) list" where
  "seed_scan st [] acc = Inr acc"
| "seed_scan st (p # ps) acc =
     (case neighbors_big st p of
        None \<Rightarrow> Inl KeyError
      | Some nb \<Rightarrow>
          if int (n_hcv st nb) > mixing_ratio st
          then seed_scan st ps (acc @ [(n_hcv st nb, p)])
          else seed_scan st ps acc)"

text \<open>Lines 166-187. \<^verbatim>\<open>sorted\<close> orders the pairs \<open>(confidence, seed)\<close> lexicographically
  and \<^verbatim>\<open>[::-1]\<close> reverses the result. The patch of a seed is the ball of radius
  \<^verbatim>\<open>patch_length\<close> around it.\<close>

definition find_seeds :: "awol \<Rightarrow> error + awol" where
  "find_seeds st =
     bind_err (seed_scan st (lcv st) []) (\<lambda>scored.
       if length scored > 0
       then
         let sds = rev (map snd (sort scored)) in
         Inr (st \<lparr> seeds := sds, neighbors_big := Map.empty,
                   patches := map (\<lambda>s. sort (query_ball (shape st) (length (labels st))
                                          (nat ((patch_length st)\<^sup>2)) s)) sds \<rparr>)
       else Inr (st \<lparr> seeds := [], neighbors_big := Map.empty \<rparr>))"

subsection \<open>\<^verbatim>\<open>get_patch\<close>\<close>

definition np_mean :: "real list \<Rightarrow> real" where
  "np_mean xs = sum_list xs / real (length xs)"

text \<open>\<^verbatim>\<open>np.std\<close> with its default \<^verbatim>\<open>ddof=0\<close>.\<close>

definition np_std :: "real list \<Rightarrow> real" where
  "np_std xs = sqrt (sum_list (map (\<lambda>x. (x - np_mean xs)\<^sup>2) xs) / real (length xs))"

text \<open>Lines 202-207. The dictionary \<^verbatim>\<open>patch_stats\<close> is the list of its items in insertion
  order, which is the order \<^verbatim>\<open>.keys()\<close> enumerates.\<close>

fun build_patch_stats :: "awol \<Rightarrow> nat list \<Rightarrow> int list \<Rightarrow> (int \<times> real \<times> real) list" where
  "build_patch_stats st patch [] = []"
| "build_patch_stats st patch (value # values) =
     (let points = map (\<lambda>q. intensity st ! q) (filter (\<lambda>q. labels st ! q = value) patch) in
      if length points > 1
      then (value, np_mean points, np_std points) # build_patch_stats st patch values
      else build_patch_stats st patch values)"

text \<open>Line 194.\<close>

definition still_lcv_patch :: "awol \<Rightarrow> nat list \<Rightarrow> nat list" where
  "still_lcv_patch st patch = filter (\<lambda>q. new_labels st ! q = - 1) patch"

definition get_patch :: "awol \<Rightarrow> error + awol" where
  "get_patch st =
     (case patches st of
        [] \<Rightarrow> Inl IndexError
      | patch # rest \<Rightarrow>
          if length (still_lcv_patch st patch) > 0
          then Inr (st \<lparr> lcvp := filter (\<lambda>q. labels st ! q = - 1) patch,
                         patch_stats := build_patch_stats st patch (label_values st),
                         do_walk := True,
                         patches := rest \<rparr>)
          else (case seeds st of
                  [] \<Rightarrow> Inl IndexError
                | s # srest \<Rightarrow> Inr (st \<lparr> do_walk := False, patches := rest, seeds := srest \<rparr>)))"

subsection \<open>\<^verbatim>\<open>get_mst_sequence\<close>\<close>

primrec map_err :: "('a \<Rightarrow> error + 'b) \<Rightarrow> 'a list \<Rightarrow> error + 'b list" where
  "map_err f [] = Inr []"
| "map_err f (x # xs) = bind_err (f x) (\<lambda>y. bind_err (map_err f xs) (\<lambda>ys. Inr (y # ys)))"

text \<open>Lines 228-233 for the voxels \<open>u = lcvp[wx]\<close> and \<open>v = lcvp[wy]\<close>.\<close>

definition edge_weight :: "awol \<Rightarrow> nat \<Rightarrow> nat \<Rightarrow> error + real" where
  "edge_weight st u v =
     (case neighbors_small st v of
        None \<Rightarrow> Inl KeyError
      | Some nb \<Rightarrow>
          if u \<in> set nb then Inr \<bar>intensity st ! u - intensity st ! v\<bar>
          else Inr (100 * sqrt (real (dist2 (unravel_index u (shape st))
                                            (unravel_index v (shape st))))))"

text \<open>Lines 224-233: only the entries with \<open>wx \<le> wy\<close> are filled, the others stay zero.\<close>

definition weight_matrix :: "awol \<Rightarrow> error + real list list" where
  "weight_matrix st =
     (let n = length (lcvp st) in
      map_err (\<lambda>wx. map_err (\<lambda>wy. if wy < wx then Inr 0
                                   else edge_weight st (lcvp st ! wx) (lcvp st ! wy))
                       [0..<n]) [0..<n])"

text \<open>
  \<^verbatim>\<open>scipy.sparse.csgraph.minimum_spanning_tree\<close> is library code, modelled from its
  documentation and its implementation (Kruskal's algorithm): a dense input is
  converted to a sparse graph in which a zero entry is no edge; the entries are taken
  in order of ascending weight; an entry is kept when its end points lie in different
  components so far, and is set to zero otherwise. The components are kept here as a
  list that gives every node a representative. Entries of equal weight are taken in
  row-major order (the library leaves that order open).
\<close>

definition csr_entries :: "real list list \<Rightarrow> (nat \<times> nat) list" where
  "csr_entries m =
     concat (map (\<lambda>i. map (\<lambda>j. (i, j)) (filter (\<lambda>j. m ! i ! j \<noteq> 0) [0..<length (m ! i)]))
               [0..<length m])"

fun kruskal :: "nat list \<Rightarrow> (nat \<times> nat) list \<Rightarrow> (nat \<times> nat) list" where
  "kruskal reps [] = []"
| "kruskal reps ((i, j) # es) =
     (if reps ! i \<noteq> reps ! j
      then (i, j) # kruskal (map (\<lambda>c. if c = reps ! j then reps ! i else c) reps) es
      else kruskal reps es)"

definition minimum_spanning_tree :: "real list list \<Rightarrow> real list list" where
  "minimum_spanning_tree m =
     (let kept = kruskal [0..<length m] (sort_key (\<lambda>(i, j). m ! i ! j) (csr_entries m)) in
      map (\<lambda>i. map (\<lambda>j. if (i, j) \<in> set kept then m ! i ! j else 0) [0..<length (m ! i)])
        [0..<length m])"

fun amax_real :: "real list \<Rightarrow> real" where
  "amax_real [] = 0"
| "amax_real [x] = x"
| "amax_real (x # xs) = max x (amax_real xs)"

text \<open>Lines 243-246: the scan of the remaining edges. \<^verbatim>\<open>nextedge\<close> is a local variable of
  the method: it keeps its value from the previous round of the \<^verbatim>\<open>while\<close> loop when no
  edge passes the test, and is unbound before the first assignment.\<close>

fun select_edge :: "real list list \<Rightarrow> nat list \<Rightarrow> (nat \<times> nat) list \<Rightarrow> real \<Rightarrow>
    (nat \<times> nat) option \<Rightarrow> (nat \<times> nat) option" where
  "select_edge mst sq [] mincost nextedge = nextedge"
| "select_edge mst sq (e # es) mincost nextedge =
     (if (fst e \<in> set sq \<or> snd e \<in> set sq) \<and> mst ! fst e ! snd e < mincost
      then select_edge mst sq es (mst ! fst e ! snd e) (Some e)
      else select_edge mst sq es mincost nextedge)"

text \<open>Lines 241-253. Reading an unbound \<^verbatim>\<open>nextedge\<close> raises \<^verbatim>\<open>UnboundLocalError\<close>;
  \<^verbatim>\<open>edges.remove\<close> of an edge that is no longer in the list raises \<^verbatim>\<open>ValueError\<close>.\<close>

function mst_walk :: "real list list \<Rightarrow> (nat \<times> nat) list \<Rightarrow> nat list \<Rightarrow> (nat \<times> nat) option \<Rightarrow>
    error + nat list" where
  "mst_walk mst edges sq nextedge =
     (if edges = [] then Inr sq
      else
        (case select_edge mst sq edges (amax_real (concat mst) + 1) nextedge of
           None \<Rightarrow> Inl UnboundLocalError
         | Some e \<Rightarrow>
             if e \<in> set edges
             then mst_walk mst (remove1 e edges)
                    (if fst e \<in> set sq then sq @ [snd e] else sq @ [fst e]) (Some e)
             else Inl ValueError))"
  by pat_completeness auto
termination
  by (relation "measure (\<lambda>(mst, edges, sq, nextedge). length edges)")
     (auto simp: length_remove1 intro: diff_less length_pos_if_in_set)

declare mst_walk.simps [simp del]

text \<open>\<^verbatim>\<open>np.argwhere(xs == x)[0][0]\<close>: the first position of \<open>x\<close>, \<^verbatim>\<open>IndexError\<close> when
  there is none.\<close>

fun index_of :: "'a \<Rightarrow> 'a list \<Rightarrow> nat option" where
  "index_of x [] = None"
| "index_of x (y # ys) =
     (if y = x then Some 0 else (case index_of x ys of None \<Rightarrow> None | Some i \<Rightarrow> Some (Suc i)))"

definition get_mst_sequence :: "awol \<Rightarrow> error + awol" where
  "get_mst_sequence st =
     bind_err (weight_matrix st) (\<lambda>weightm.
       let mst = minimum_spanning_tree weightm in
       (case seeds st of
          [] \<Rightarrow> Inl IndexError
        | s # srest \<Rightarrow>
            (case index_of s (lcvp st) of
               None \<Rightarrow> Inl IndexError
             | Some i0 \<Rightarrow>
                 bind_err (mst_walk mst (csr_entries mst) [i0] None) (\<lambda>sq.
                   Inr (st \<lparr> seq := map (\<lambda>i. lcvp st ! i) sq, seeds := srest \<rparr>)))))"

subsection \<open>\<^verbatim>\<open>mrf_potentials\<close>\<close>

text \<open>Line 273.\<close>

definition mrf_single :: "real \<Rightarrow> real \<Rightarrow> real \<Rightarrow> real" where
  "mrf_single mean std x = ln (sqrt (2 * pi) * std) + (x - mean)\<^sup>2 / (2 * std\<^sup>2)"

text \<open>Line 274, with \<open>n\<close> the direct neighbours of the voxel.\<close>

definition mrf_double :: "real \<Rightarrow> int list \<Rightarrow> nat list \<Rightarrow> int \<Rightarrow> real" where
  "mrf_double b nlflat n value =
     b * real_of_int (2 * int (length (filter (\<lambda>q. nlflat ! q = value) n))
                      + int (length (filter (\<lambda>q. nlflat ! q = - 1) n)) - int (length n))"

definition mrf_total :: "awol \<Rightarrow> nat \<Rightarrow> nat list \<Rightarrow> int \<times> real \<times> real \<Rightarrow> real" where
  "mrf_total st p n item =
     (case item of (value, mean, std) \<Rightarrow>
        mrf_single mean std (intensity st ! p) + mrf_double (beta st) (new_labels st) n value)"

text \<open>Lines 271-278: the loop over \<^verbatim>\<open>self.patch_stats.keys()\<close>. \<^verbatim>\<open>mrf_energy\<close> is \<open>None\<close>
  while it is \<^verbatim>\<open>np.inf\<close>. With a standard deviation of zero the singleton term is
  \<^verbatim>\<open>nan\<close> (\<^verbatim>\<open>log(0) = -inf\<close> plus a division by zero), every comparison with it is false
  and the label is passed over. \<^verbatim>\<open>new_label\<close> is \<open>None\<close> while it is unbound.\<close>

fun choose_label :: "awol \<Rightarrow> nat \<Rightarrow> nat list \<Rightarrow> (int \<times> real \<times> real) list \<Rightarrow> real option \<Rightarrow>
    int option \<Rightarrow> int option" where
  "choose_label st p n [] mrf_energy new_label = new_label"
| "choose_label st p n (item # items) mrf_energy new_label =
     (if snd (snd item) = 0 then choose_label st p n items mrf_energy new_label
      else if (case mrf_energy of None \<Rightarrow> True | Some m \<Rightarrow> mrf_total st p n item < m)
      then choose_label st p n items (Some (mrf_total st p n item)) (Some (fst item))
      else choose_label st p n items mrf_energy new_label)"

text \<open>Lines 281-282: one vote for \<^verbatim>\<open>new_label\<close> in the tally of the voxel, then the working
  label of the voxel is read off the tally with \<^verbatim>\<open>np.argmax\<close>.\<close>

definition tally_vote :: "awol \<Rightarrow> nat \<Rightarrow> int \<Rightarrow> error + awol" where
  "tally_vote st p new_label =
     (case index_of new_label (label_values st) of
        None \<Rightarrow> Inl IndexError
      | Some k \<Rightarrow>
          if p < length (label_count st) \<and> p < length (new_labels st)
          then
            let counts = (label_count st ! p)[k := uint16_incr (label_count st ! p ! k)] in
            Inr (st \<lparr> label_count := (label_count st)[p := counts],
                      new_labels := (new_labels st)
                         [p := to_int16 (label_values st ! argmax_list counts)] \<rparr>)
          else Inl IndexError)"

text \<open>Lines 268-282: the loop over \<^verbatim>\<open>self.seq\<close>; \<^verbatim>\<open>new_label\<close> is local to the method and
  is carried from one voxel to the next.\<close>

fun mrf_visit :: "awol \<Rightarrow> nat list \<Rightarrow> int option \<Rightarrow> error + awol" where
  "mrf_visit st [] new_label = Inr st"
| "mrf_visit st (p # ps) new_label =
     (case neighbors_small st p of
        None \<Rightarrow> Inl KeyError
      | Some n \<Rightarrow>
          (case choose_label st p n (patch_stats st) None new_label of
             None \<Rightarrow> Inl UnboundLocalError
           | Some l \<Rightarrow>
               (case tally_vote st p l of
                  Inl e \<Rightarrow> Inl e
                | Inr st' \<Rightarrow> mrf_visit st' ps (Some l))))"

definition mrf_potentials :: "awol \<Rightarrow> error + awol" where
  "mrf_potentials st =
     bind_err (mrf_visit st (seq st) None) (\<lambda>st'. Inr (st' \<lparr> seq := [], patch_stats := [] \<rparr>))"

subsection \<open>\<^verbatim>\<open>final_labels\<close>\<close>

text \<open>Lines 295-297: \<^verbatim>\<open>still_lcv\<close> is computed once, then every label is written to the
  voxels of \<^verbatim>\<open>still_lcv\<close> whose majority index is the label's.\<close>

fun fill_loop :: "nat list \<Rightarrow> nat list \<Rightarrow> nat \<Rightarrow> int list \<Rightarrow> int list \<Rightarrow> int list" where
  "fill_loop m0 still i [] nlflat = nlflat"
| "fill_loop m0 still i (value # values) nlflat =
     fill_loop m0 still (Suc i) values
       (map (\<lambda>p. if p \<in> set still \<and> m0 ! p = i then to_int16 value else nlflat ! p)
          [0..<length nlflat])"

definition final_labels :: "awol \<Rightarrow> awol" where
  "final_labels st =
     (let still = filter (\<lambda>p. new_labels st ! p = - 1) [0..<length (new_labels st)];
          nl = fill_loop (mode0 st) still 0 (label_values st) (new_labels st)
      in st \<lparr> new_labels := nl, labels := nl \<rparr>)"

subsection \<open>\<^verbatim>\<open>run\<close>\<close>

text \<open>The loop \<^verbatim>\<open>while self.seeds\<close> of \<^verbatim>\<open>run\<close> ends because every round deletes the first
  seed: \<^verbatim>\<open>get_patch\<close> does when it skips the patch, \<^verbatim>\<open>get_mst_sequence\<close> when the patch is
  walked.\<close>

lemma bind_err_simps [simp]:
  "bind_err (Inl e) f = Inl e" "bind_err (Inr x) f = f x"
  by (simp_all add: bind_err_def)

lemma bind_err_Inr_iff:
  "bind_err r f = Inr y \<longleftrightarrow> (\<exists>x. r = Inr x \<and> f x = Inr y)"
  by (cases r) simp_all

lemma get_patch_walk_seeds:
  "get_patch st = Inr st1 \<Longrightarrow> do_walk st1 \<Longrightarrow> seeds st1 = seeds st"
  by (auto simp: get_patch_def split: list.splits if_splits)

lemma get_patch_skip_seeds:
  "get_patch st = Inr st1 \<Longrightarrow> \<not> do_walk st1 \<Longrightarrow> length (seeds st1) < length (seeds st)"
  by (auto simp: get_patch_def split: list.splits if_splits)

lemma get_mst_sequence_seeds:
  assumes "get_mst_sequence st = Inr st2"
  shows "length (seeds st2) < length (seeds st)"
proof (cases "weight_matrix st")
  case (Inl e)
  with assms show ?thesis by (simp add: get_mst_sequence_def)
next
  case (Inr w)
  show ?thesis
  proof (cases "seeds st")
    case Nil
    with assms Inr show ?thesis by (simp add: get_mst_sequence_def)
  next
    case (Cons s srest)
    show ?thesis
    proof (cases "index_of s (lcvp st)")
      case None
      with assms Inr Cons show ?thesis by (simp add: get_mst_sequence_def)
    next
      case (Some i0)
      with assms Inr Cons show ?thesis
        by (auto simp: get_mst_sequence_def Let_def bind_err_Inr_iff)
    qed
  qed
qed

lemma tally_vote_seeds: "tally_vote st p l = Inr st' \<Longrightarrow> seeds st' = seeds st"
  by (auto simp: tally_vote_def Let_def split: option.splits if_splits)

lemma mrf_visit_seeds: "mrf_visit st ps nl = Inr st' \<Longrightarrow> seeds st' = seeds st"
proof (induction ps arbitrary: st nl)
  case Nil
  then show ?case by simp
next
  case (Cons p ps)
  from Cons.prems obtain n l st1 where
    "tally_vote st p l = Inr st1" "mrf_visit st1 ps (Some l) = Inr st'"
    by (auto split: option.splits sum.splits)
  then show ?case
    using Cons.IH tally_vote_seeds by fastforce
qed

lemma mrf_potentials_seeds: "mrf_potentials st = Inr st' \<Longrightarrow> seeds st' = seeds st"
  by (auto simp: mrf_potentials_def bind_err_Inr_iff dest: mrf_visit_seeds)

text \<open>Lines 114-119.\<close>

function seeds_loop :: "awol \<Rightarrow> error + awol" where
  "seeds_loop st =
     (if seeds st = [] then Inr st
      else
        (case get_patch st of
           Inl e \<Rightarrow> Inl e
         | Inr st1 \<Rightarrow>
             if do_walk st1
             then (case get_mst_sequence st1 of
                     Inl e \<Rightarrow> Inl e
                   | Inr st2 \<Rightarrow>
                       (case mrf_potentials st2 of
                          Inl e \<Rightarrow> Inl e
                        | Inr st3 \<Rightarrow> seeds_loop st3))
             else seeds_loop st1))"
  by pat_completeness auto
termination
proof (relation "measure (\<lambda>st. length (seeds st))")
  show "wf (measure (\<lambda>st. length (seeds st)))" by simp
next
  fix st st1 st2 st3
  assume a: "get_patch st = Inr st1" "do_walk st1" "get_mst_sequence st1 = Inr st2"
    "mrf_potentials st2 = Inr st3"
  from get_patch_walk_seeds [OF a(1) a(2)] get_mst_sequence_seeds [OF a(3)]
    mrf_potentials_seeds [OF a(4)]
  have "length (seeds st3) < length (seeds st)" by simp
  then show "(st3, st) \<in> measure (\<lambda>st. length (seeds st))" by simp
next
  fix st st1
  assume b: "get_patch st = Inr st1" "\<not> do_walk st1"
  from get_patch_skip_seeds [OF b(1) b(2)]
  show "(st1, st) \<in> measure (\<lambda>st. length (seeds st))" by simp
qed

declare seeds_loop.simps [simp del]

text \<open>Lines 105-122. \<^verbatim>\<open>get_output_image\<close> with \<^verbatim>\<open>bbox=None\<close> wraps \<^verbatim>\<open>self.labels\<close> into an
  image; the result of \<open>run\<close> is that array.\<close>

definition run :: "awol \<Rightarrow> error + int list" where
  "run st =
     (let st1 = find_lcv st in
      if no_lcv st1 then Inr (labels st1)
      else bind_err (find_seeds st1) (\<lambda>st2.
           bind_err (seeds_loop st2) (\<lambda>st3. Inr (labels (final_labels st3)))))"

section \<open>Properties\<close>

subsection \<open>The vote tensor\<close>

lemma np_unique_set [simp]: "set (np_unique xs) = set xs"
  by (simp add: np_unique_def)

lemma np_unique_distinct [simp]: "distinct (np_unique xs)"
  by (simp add: np_unique_def)


text \<open>The shape of \<^verbatim>\<open>votes\<close>: one plane per label, every plane as long as the volume.\<close>

definition votes_shape :: "nat \<Rightarrow> nat \<Rightarrow> nat list list \<Rightarrow> bool" where
  "votes_shape nl n votes \<longleftrightarrow> length votes = nl \<and> list_all (\<lambda>plane. length plane = n) votes"

lemma add_votes_shape:
  "votes_shape (length lvs) (length img) votes \<Longrightarrow>
   votes_shape (length lvs) (length img) (add_votes lvs img votes)"
  by (auto simp: votes_shape_def add_votes_def list_all_iff dest!: set_zip_rightD)

lemma add_votes_column:
  assumes "length votes = length lvs" "list_all (\<lambda>plane. length plane = length img) votes"
    "p < length img"
  shows "sum_list (column (add_votes lvs img votes) p) =
         sum_list (column votes p) + length (filter (\<lambda>v. v = img ! p) lvs)"
  using assms
proof (induction votes lvs rule: list_induct2)
  case Nil
  then show ?case by (simp add: column_def add_votes_def)
next
  case (Cons plane votes v lvs)
  then show ?case by (simp add: column_def add_votes_def)
qed

lemma distinct_count_one:
  "distinct xs \<Longrightarrow> x \<in> set xs \<Longrightarrow> length (filter (\<lambda>v. v = x) xs) = 1"
  by (induction xs) (auto simp: filter_empty_conv)

lemma count_rest_column:
  assumes "count_rest lvs k imgs votes0 = Inr votes" "distinct lvs"
    "votes_shape (length lvs) n votes0" "list_all (\<lambda>img. length img = n) imgs" "p < n"
  shows "sum_list (column votes p) = sum_list (column votes0 p) + length imgs
         \<and> votes_shape (length lvs) n votes"
  using assms
proof (induction imgs arbitrary: votes0 k)
  case Nil
  then show ?case by simp
next
  case (Cons img imgs)
  from Cons.prems(1) have u: "np_unique img = lvs"
    and r: "count_rest lvs (Suc k) imgs (add_votes lvs img votes0) = Inr votes"
    by (auto split: if_splits)
  from Cons.prems(4) have len: "length img = n" and rest: "list_all (\<lambda>img. length img = n) imgs"
    by simp_all
  have mem: "img ! p \<in> set lvs"
    using u len Cons.prems(5) by (metis np_unique_set nth_mem)
  have sh: "votes_shape (length lvs) n (add_votes lvs img votes0)"
    using add_votes_shape [of lvs img votes0] Cons.prems(3) len by simp
  have col: "sum_list (column (add_votes lvs img votes0) p) = sum_list (column votes0 p) + 1"
    using add_votes_column [of votes0 lvs img p] Cons.prems(3,5) len
      distinct_count_one [OF Cons.prems(2) mem]
    by (simp add: votes_shape_def)
  from Cons.IH [OF r Cons.prems(2) sh rest Cons.prems(5)] col
  show ?case by simp
qed

lemma votes_shape_zero: "votes_shape nl n (replicate nl (replicate n 0))"
  by (simp add: votes_shape_def list_all_iff)

lemma sum_list_column_zero: "p < n \<Longrightarrow> sum_list (column (replicate nl (replicate n (0::nat))) p) = 0"
  by (simp add: column_def)

lemma count_votes_column:
  assumes "count_votes imgs = Inr (lvs, votes)" "list_all (\<lambda>img. length img = n) imgs" "p < n"
  shows "sum_list (column votes p) = length imgs \<and> votes_shape (length lvs) n votes
          \<and> lvs = np_unique (hd imgs) \<and> imgs \<noteq> []"
proof (cases imgs)
  case Nil
  with assms show ?thesis by simp
next
  case (Cons img rest)
  let ?v0 = "replicate (length lvs) (replicate (length img) (0::nat))"
  from assms(1) Cons have lvs: "lvs = np_unique img"
    and r: "count_rest lvs (Suc 0) rest (add_votes lvs img ?v0) = Inr votes"
    by (auto simp: Let_def bind_err_Inr_iff)
  from assms(2) Cons have len: "length img = n" and rest: "list_all (\<lambda>img. length img = n) rest"
    by simp_all
  have d: "distinct lvs" using lvs by simp
  have mem: "img ! p \<in> set lvs" using lvs len assms(3) by simp
  have sh: "votes_shape (length lvs) n (add_votes lvs img ?v0)"
    using add_votes_shape [of lvs img ?v0] votes_shape_zero [of "length lvs" n] len by simp
  have col: "sum_list (column (add_votes lvs img ?v0) p) = 1"
    using add_votes_column [of ?v0 lvs img p] len assms(3) distinct_count_one [OF d mem]
      sum_list_column_zero [of p n "length lvs"]
    by (simp add: list_all_iff)
  from count_rest_column [OF r d sh rest assms(3)] col lvs Cons
  show ?thesis by simp
qed

text \<open>
  Claim C7. For every voxel \<open>p\<close> of the vote tensor that the constructor builds from
  candidate volumes of one shape, the votes of all labels at \<open>p\<close> add up to the number of
  candidate volumes.
\<close>

theorem votes_sum:
  assumes "count_votes imgs = Inr (lvs, votes)" "\<forall>img\<in>set imgs. length img = n" "p < n"
  shows "sum_list (column votes p) = length imgs"
  using count_votes_column [of imgs lvs votes n p] assms by (simp add: list_all_iff)

theorem votes_sum_witness:
  "count_votes [[0, 0, 0, 1], [0, 1, 1, 1]] = Inr ([0, 1], [[2, 1, 1, 0], [0, 1, 1, 2]]) \<and>
   sum_list (column [[2, 1, 1, 0], [0, 1, 1, 2]] 1) = length [[0, 0, 0, 1], [0, 1, 1, 1 :: int]]"
proof -
  have c: "count_votes [[0, 0, 0, 1], [0, 1, 1, 1]] = Inr ([0, 1], [[2, 1, 1, 0], [0, 1, 1, 2]])"
    by code_simp
  have l: "\<forall>img\<in>set [[0, 0, 0, 1], [0, 1, 1, 1 :: int]]. length img = 4"
    by simp
  have s: "sum_list (column [[2, 1, 1, 0], [0, 1, 1, 2]] 1)
           = length [[0, 0, 0, 1], [0, 1, 1, 1 :: int]]"
    by (rule votes_sum [OF c l]) simp
  from c s show ?thesis by (rule conjI)
qed

subsection \<open>The confidence volume\<close>

lemma amax_list_ge: "x \<in> set xs \<Longrightarrow> x \<le> amax_list xs"
  by (induction xs) auto

lemma amax_list_mem: "xs \<noteq> [] \<Longrightarrow> amax_list xs \<in> set xs"
proof (induction xs)
  case Nil
  then show ?case by simp
next
  case (Cons x xs)
  show ?case
  proof (cases "xs = []")
    case True
    then show ?thesis by simp
  next
    case False
    with Cons.IH have "amax_list xs \<in> set xs" by simp
    then show ?thesis by (simp add: max_def)
  qed
qed

text \<open>The invariant of the scan: \<open>ys\<close> is the part already read, \<open>bi\<close> the position of the
  first occurrence of its maximum \<open>bv\<close>.\<close>

lemma argmax_from_inv:
  assumes "bi < length ys" "ys ! bi = bv" "\<forall>y\<in>set ys. y \<le> bv" "\<forall>j<bi. ys ! j < bv"
  shows "argmax_from (length ys) bi bv xs < length (ys @ xs) \<and>
         (\<forall>z\<in>set (ys @ xs). z \<le> (ys @ xs) ! argmax_from (length ys) bi bv xs) \<and>
         (\<forall>j<argmax_from (length ys) bi bv xs.
            (ys @ xs) ! j < (ys @ xs) ! argmax_from (length ys) bi bv xs)"
  using assms
proof (induction xs arbitrary: ys bi bv)
  case Nil
  then show ?case by simp
next
  case (Cons x xs)
  show ?case
  proof (cases "bv < x")
    case True
    have 1: "length ys < length (ys @ [x])" by simp
    have 2: "(ys @ [x]) ! length ys = x" by simp
    have 3: "\<forall>y\<in>set (ys @ [x]). y \<le> x" using Cons.prems(3) True by auto
    have 4: "\<forall>j<length ys. (ys @ [x]) ! j < x"
    proof (intro allI impI)
      fix j assume j: "j < length ys"
      then have "ys ! j \<le> bv" using Cons.prems(3) by simp
      with True j show "(ys @ [x]) ! j < x" by (simp add: nth_append)
    qed
    from Cons.IH [OF 1 2 3 4] True show ?thesis by simp
  next
    case False
    have 1: "bi < length (ys @ [x])" using Cons.prems(1) by simp
    have 2: "(ys @ [x]) ! bi = bv" using Cons.prems(1,2) by (simp add: nth_append)
    have 3: "\<forall>y\<in>set (ys @ [x]). y \<le> bv" using Cons.prems(3) False by auto
    have 4: "\<forall>j<bi. (ys @ [x]) ! j < bv"
      using Cons.prems(1,4) by (simp add: nth_append)
    from Cons.IH [OF 1 2 3 4] False show ?thesis by simp
  qed
qed

lemma argmax_list_spec:
  assumes "xs \<noteq> []"
  shows "argmax_list xs < length xs \<and> (\<forall>x\<in>set xs. x \<le> xs ! argmax_list xs) \<and>
         (\<forall>j < argmax_list xs. xs ! j < xs ! argmax_list xs)"
proof -
  from assms obtain x ys where xs: "xs = x # ys" by (cases xs) auto
  have "argmax_from (length [x]) 0 x ys < length ([x] @ ys) \<and>
         (\<forall>z\<in>set ([x] @ ys). z \<le> ([x] @ ys) ! argmax_from (length [x]) 0 x ys) \<and>
         (\<forall>j<argmax_from (length [x]) 0 x ys.
            ([x] @ ys) ! j < ([x] @ ys) ! argmax_from (length [x]) 0 x ys)"
    by (rule argmax_from_inv) simp_all
  then show ?thesis by (simp add: xs)
qed

lemma amax_list_argmax: 
  assumes ne: "xs \<noteq> []" shows "amax_list xs = xs ! argmax_list xs"
proof -
  from argmax_list_spec [OF ne] amax_list_mem [OF ne]
  have "amax_list xs \<le> xs ! argmax_list xs" by blast
  moreover have "xs ! argmax_list xs \<le> amax_list xs"
    using argmax_list_spec [OF ne] amax_list_ge by simp
  ultimately show ?thesis by simp
qed

lemma classify_nth:
  "p < length lbls \<Longrightarrow>
   length (classify votes m0 m1 thr nimg i vals lbls) = length lbls \<and>
   classify votes m0 m1 thr nimg i vals lbls ! p =
     (if i \<le> m0 ! p \<and> m0 ! p < i + length vals \<and>
         above_threshold votes m0 m1 thr nimg (m0 ! p) p
      then to_int16 (vals ! (m0 ! p - i)) else lbls ! p)"
proof (induction vals arbitrary: i lbls)
  case Nil
  then show ?case by simp
next
  case (Cons v vals)
  let ?l = "map (\<lambda>q. if above_threshold votes m0 m1 thr nimg i q then to_int16 v else lbls ! q)
              [0..<length lbls]"
  have len: "p < length ?l" using Cons.prems by simp
  have at: "above_threshold votes m0 m1 thr nimg i p \<Longrightarrow> m0 ! p = i"
    by (simp add: above_threshold_def)
  show ?case
  proof (cases "m0 ! p = i")
    case True
    with Cons.IH [OF len, of "Suc i"] Cons.prems show ?thesis by simp
  next
    case False
    with at have "\<not> above_threshold votes m0 m1 thr nimg i p" by blast
    with Cons.IH [OF len, of "Suc i"] Cons.prems False show ?thesis
      by (auto simp: Suc_diff_le nth_Cons')
  qed
qed


lemma awol_init_Inr:
  assumes "awol_init imgs brain shp b mr pl same thr0 = Inr st"
  obtains votes thr where
    "0 \<le> mr" "0 \<le> pl" "check_thresholds thr0 = Inr ()"
    "count_votes imgs = Inr (label_values st, votes)"
    "pad_thresholds (length (label_values st)) same thr0 = Inr thr"
    "label_values st \<noteq> []"
    "mode0 st = map (\<lambda>p. argmax_list (column votes p)) [0..<length (hd votes)]"
    "mode1 st = map (\<lambda>p. amax_list (column votes p)) [0..<length (hd votes)]"
    "labels st = classify votes (mode0 st) (mode1 st) thr (length imgs) 0 (label_values st)
                   (replicate (length (hd votes)) (- 1))"
    "mixing_ratio st = mr" "patch_length st = pl" "shape st = shp" "intensity st = brain"
    "beta st = b"
proof -
  from assms obtain lvs votes thr where
    1: "0 \<le> mr" "0 \<le> pl" "check_thresholds thr0 = Inr ()"
      "count_votes imgs = Inr (lvs, votes)" "pad_thresholds (length lvs) same thr0 = Inr thr"
    and 2: "(if lvs = [] then Inl ValueError
       else
         let nvox = length (hd votes);
             m0 = map (\<lambda>p. argmax_list (column votes p)) [0..<nvox];
             m1 = map (\<lambda>p. amax_list (column votes p)) [0..<nvox]
         in Inr \<lparr> beta = b, mixing_ratio = mr, patch_length = pl, shape = shp,
                  label_values = lvs, mode0 = m0, mode1 = m1,
                  labels = classify votes m0 m1 thr (length imgs) 0 lvs
                             (replicate nvox (- 1)),
                  intensity = brain,
                  lcv = [], no_lcv = False,
                  neighbors_small = Map.empty, neighbors_big = Map.empty,
                  label_count = [], new_labels = [],
                  seeds = [], patches = [], lcvp = [], patch_stats = [],
                  do_walk = False, seq = [] \<rparr>) = Inr st"
  proof -
    from assms have a: "0 \<le> mr" "0 \<le> pl"
      by (auto simp: awol_init_def positive_int_def split: if_splits)
    with assms obtain u where u: "check_thresholds thr0 = Inr u"
      by (cases "check_thresholds thr0") (simp_all add: awol_init_def positive_int_def)
    with assms a obtain lvs votes where cv: "count_votes imgs = Inr (lvs, votes)"
      by (cases "count_votes imgs") (auto simp: awol_init_def positive_int_def)
    with assms a u obtain thr where pt: "pad_thresholds (length lvs) same thr0 = Inr thr"
      by (cases "pad_thresholds (length lvs) same thr0")
         (simp_all add: awol_init_def positive_int_def)
    show thesis
      by (rule that [of lvs votes thr])
         (use assms a u cv pt in \<open>simp_all add: awol_init_def positive_int_def\<close>)
  qed
  from 2 have ne: "lvs \<noteq> []" by (auto split: if_splits)
  with 2 have st: "st = \<lparr> beta = b, mixing_ratio = mr, patch_length = pl, shape = shp,
                  label_values = lvs,
                  mode0 = map (\<lambda>p. argmax_list (column votes p)) [0..<length (hd votes)],
                  mode1 = map (\<lambda>p. amax_list (column votes p)) [0..<length (hd votes)],
                  labels = classify votes
                     (map (\<lambda>p. argmax_list (column votes p)) [0..<length (hd votes)])
                     (map (\<lambda>p. amax_list (column votes p)) [0..<length (hd votes)])
                     thr (length imgs) 0 lvs (replicate (length (hd votes)) (- 1)),
                  intensity = brain,
                  lcv = [], no_lcv = False,
                  neighbors_small = Map.empty, neighbors_big = Map.empty,
                  label_count = [], new_labels = [],
                  seeds = [], patches = [], lcvp = [], patch_stats = [],
                  do_walk = False, seq = [] \<rparr>"
    by (simp add: Let_def)
  show thesis
    by (rule that [of votes thr]) (use 1 ne in \<open>simp_all add: st\<close>)
qed

lemma to_int16_id: "0 \<le> v \<Longrightarrow> v < 32768 \<Longrightarrow> to_int16 v = v"
  by (simp add: to_int16_def)

lemma n_labels_pos:
  assumes "0 < sum_list (column votes p)"
  shows "n_labels votes p \<noteq> 0"
proof -
  have "sum_list xs > 0 \<Longrightarrow> filter (\<lambda>c. c \<noteq> 0) xs \<noteq> []" for xs :: "nat list"
    by (induction xs) auto
  with assms show ?thesis by (simp add: n_labels_def)
qed

lemma votes_shape_hd:
  "votes_shape nl n votes \<Longrightarrow> 0 < nl \<Longrightarrow> length (hd votes) = n"
  by (cases votes) (auto simp: votes_shape_def)

text \<open>What the constructor leaves at one voxel.\<close>

lemma init_voxel:
  assumes init: "awol_init imgs brain shp b mr pl same thr0 = Inr st"
    and shp: "\<forall>img\<in>set imgs. length img = n" and p: "p < n"
  obtains votes thr where
    "count_votes imgs = Inr (label_values st, votes)"
    "pad_thresholds (length (label_values st)) same thr0 = Inr thr"
    "votes_shape (length (label_values st)) n votes"
    "length (labels st) = n" "length (mode0 st) = n"
    "mode0 st ! p = argmax_list (column votes p)"
    "mode0 st ! p < length (label_values st)"
    "mode1 st ! p = votes ! (mode0 st ! p) ! p"
    "\<forall>j<length (label_values st). votes ! j ! p \<le> votes ! (mode0 st ! p) ! p"
    "\<forall>j<mode0 st ! p. votes ! j ! p < votes ! (mode0 st ! p) ! p"
    "n_labels votes p \<noteq> 0"
    "labels st ! p =
       (if n_labels votes p = 1 \<or>
           (1 / real (n_labels votes p) + thr ! (mode0 st ! p)) * real (length imgs)
             \<le> real (votes ! (mode0 st ! p) ! p)
        then to_int16 (label_values st ! (mode0 st ! p)) else - 1)"
proof -
  from init obtain votes thr where
    cv: "count_votes imgs = Inr (label_values st, votes)"
    and pt: "pad_thresholds (length (label_values st)) same thr0 = Inr thr"
    and ne: "label_values st \<noteq> []"
    and m0: "mode0 st = map (\<lambda>p. argmax_list (column votes p)) [0..<length (hd votes)]"
    and m1: "mode1 st = map (\<lambda>p. amax_list (column votes p)) [0..<length (hd votes)]"
    and lb: "labels st = classify votes (mode0 st) (mode1 st) thr (length imgs) 0
               (label_values st) (replicate (length (hd votes)) (- 1))"
    by (rule awol_init_Inr)
  have "list_all (\<lambda>img. length img = n) imgs" using shp by (simp add: list_all_iff)
  from count_votes_column [OF cv this p]
  have sum: "sum_list (column votes p) = length imgs"
    and sh: "votes_shape (length (label_values st)) n votes" and imgs: "imgs \<noteq> []"
    by blast+
  have hd: "length (hd votes) = n" using votes_shape_hd [OF sh] ne by simp
  have lv: "length votes = length (label_values st)" using sh by (simp add: votes_shape_def)
  have col: "column votes p \<noteq> []" using lv ne by (auto simp: column_def)
  have lcol: "length (column votes p) = length (label_values st)"
    using lv by (simp add: column_def)
  have m0p: "mode0 st ! p = argmax_list (column votes p)" using m0 hd p by simp
  have m1p: "mode1 st ! p = amax_list (column votes p)" using m1 hd p by simp
  note spec = argmax_list_spec [OF col]
  have k: "mode0 st ! p < length (label_values st)" using spec lcol m0p by simp
  have nth: "column votes p ! j = votes ! j ! p" if "j < length (label_values st)" for j
    using that lv by (simp add: column_def)
  have m1v: "mode1 st ! p = votes ! (mode0 st ! p) ! p"
    using m1p amax_list_argmax [OF col] m0p nth [OF k] by simp
  have mx: "\<forall>j<length (label_values st). votes ! j ! p \<le> votes ! (mode0 st ! p) ! p"
  proof (intro allI impI)
    fix j assume j: "j < length (label_values st)"
    then have "column votes p ! j \<in> set (column votes p)" using lcol by simp
    with spec have "column votes p ! j \<le> column votes p ! argmax_list (column votes p)"
      by blast
    then show "votes ! j ! p \<le> votes ! (mode0 st ! p) ! p"
      using nth [OF j] nth [OF k] m0p by simp
  qed
  have fst: "\<forall>j<mode0 st ! p. votes ! j ! p < votes ! (mode0 st ! p) ! p"
  proof (intro allI impI)
    fix j assume j: "j < mode0 st ! p"
    with spec m0p have "column votes p ! j < column votes p ! argmax_list (column votes p)"
      by simp
    moreover have "j < length (label_values st)" using j k by simp
    ultimately show "votes ! j ! p < votes ! (mode0 st ! p) ! p"
      using nth nth [OF k] m0p by simp
  qed
  have np: "n_labels votes p \<noteq> 0"
    using n_labels_pos [of votes p] sum imgs by simp
  have pl: "p < length (replicate (length (hd votes)) (- 1 :: int))" using hd p by simp
  from classify_nth [OF pl, of votes "mode0 st" "mode1 st" thr "length imgs" 0 "label_values st"]
  have len: "length (labels st) = n"
    and lp: "labels st ! p =
      (if mode0 st ! p < length (label_values st) \<and>
          above_threshold votes (mode0 st) (mode1 st) thr (length imgs) (mode0 st ! p) p
       then to_int16 (label_values st ! (mode0 st ! p)) else - 1)"
    using lb hd p by simp_all
  have lm: "length (mode0 st) = n" using m0 hd by simp
  show thesis
    by (rule that [OF cv pt sh len lm m0p k m1v mx fst np])
       (use lp k np m1v in \<open>simp add: above_threshold_def\<close>)
qed



lemma not_isl_Inr: "\<not> isl x \<Longrightarrow> \<exists>y. x = Inr y"
  by (cases x) simp_all


subsection \<open>Validation in the constructor\<close>







lemma np_unique_Nil [simp]: "np_unique xs = [] \<longleftrightarrow> xs = []"
  by (metis np_unique_set set_empty)

lemma count_votes_labels:
  "count_votes imgs = Inr (lvs, votes) \<Longrightarrow> lvs = np_unique (hd imgs) \<and> imgs \<noteq> []"
  by (cases imgs) (auto simp: Let_def bind_err_Inr_iff)







subsection \<open>Example inputs\<close>

text \<open>Two candidate volumes of four voxels in a row that disagree on the two middle voxels;
  every voxel may become a seed (\<^verbatim>\<open>mixing_ratio = 0\<close>).\<close>

definition example_a :: "error + awol" where
  "example_a = awol_init [[0, 0, 0, 1], [0, 1, 1, 1]] [10, 20, 30, 40] (1, 1, 4) (- 0.2) 0 5
                 True [0.2, 0.2]"

text \<open>The same volumes with the default \<^verbatim>\<open>mixing_ratio = 10\<close>, which no voxel of so small a
  volume reaches.\<close>

definition example_b :: "error + awol" where
  "example_b = awol_init [[0, 0, 0, 1], [0, 1, 1, 1]] [10, 20, 30, 40] (1, 1, 4) (- 0.2) 10 5
                 True [0.2, 0.2]"

text \<open>Six voxels in a row; the two low-confidence voxels in the middle are direct neighbours
  of equal intensity.\<close>

definition example_c :: "error + awol" where
  "example_c = awol_init [[0, 0, 0, 0, 1, 1], [0, 0, 1, 1, 1, 1]] [10, 20, 50, 50, 80, 90]
                 (1, 1, 6) (- 0.2) 0 5 True [0.2, 0.2]"

lemma bind_err_Inr_E:
  assumes "bind_err r f = Inr y"
  obtains x where "r = Inr x" "f x = Inr y"
  using assms by (cases r) simp_all

lemma map_sum_Inr_E:
  assumes "map_sum f g r = Inr y"
  obtains x where "r = Inr x" "g x = y"
  using assms by (cases r) simp_all

lemma mst_walk_Nil [simp]: "mst_walk mst [] sq nextedge = Inr sq"
  by (subst mst_walk.simps) simp

lemma dist2_self [simp]: "dist2 a a = 0"
  by (cases a) (simp add: dist2_def)


subsection \<open>Skipped patches\<close>

text \<open>
  Claim C8. When no voxel of the first patch still holds the sentinel in the working
  volume, \<^verbatim>\<open>get_patch\<close> clears \<^verbatim>\<open>do_walk\<close>, removes the patch and its seed from their
  queues and leaves the working labels and the tallies as they are; the loop of \<^verbatim>\<open>run\<close>
  goes on with the next seed without a walk.
\<close>

theorem get_patch_skip:
  assumes "patches st = patch # rest" "seeds st = s # srest" "still_lcv_patch st patch = []"
  shows "\<exists>st'. get_patch st = Inr st' \<and> \<not> do_walk st' \<and>
           patches st' = rest \<and> seeds st' = srest \<and>
           new_labels st' = new_labels st \<and> label_count st' = label_count st \<and>
           labels st' = labels st \<and>
           seeds_loop st = seeds_loop st'"
proof -
  let ?st' = "st \<lparr> do_walk := False, patches := rest, seeds := srest \<rparr>"
  have g: "get_patch st = Inr ?st'" using assms by (simp add: get_patch_def)
  have "seeds_loop st = seeds_loop ?st'"
    using assms(2) g by (subst seeds_loop.simps) simp
  with g show ?thesis by (intro exI [of _ ?st']) simp
qed

text \<open>A state in which both low-confidence voxels of the patch of seed 1 have been
  relabeled already.\<close>

definition example_resolved :: awol where
  "example_resolved =
     \<lparr> beta = - 0.2, mixing_ratio = 0, patch_length = 5, shape = (1, 1, 4),
       label_values = [0, 1], mode0 = [0, 0, 0, 1], mode1 = [2, 1, 1, 2],
       labels = [0, - 1, - 1, 1], intensity = [10, 20, 30, 40],
       lcv = [1, 2], no_lcv = False,
       neighbors_small = neighbors (1, 1, 4) 4 [1, 2] 1, neighbors_big = Map.empty,
       label_count = [[0, 0], [1, 0], [0, 1], [0, 0]], new_labels = [0, 0, 1, 1],
       seeds = [1], patches = [[0, 1, 2, 3]], lcvp = [1, 2], patch_stats = [],
       do_walk = True, seq = [] \<rparr>"

theorem get_patch_skip_witness:
  "still_lcv_patch example_resolved [0, 1, 2, 3] = [] \<and>
   (\<exists>st'. get_patch example_resolved = Inr st' \<and> \<not> do_walk st' \<and>
           patches st' = [] \<and> seeds st' = [] \<and>
           new_labels st' = new_labels example_resolved \<and>
           label_count st' = label_count example_resolved \<and>
           labels st' = labels example_resolved \<and>
           seeds_loop example_resolved = seeds_loop st')"
proof -
  have p: "patches example_resolved = [0, 1, 2, 3] # []"
    and s: "seeds example_resolved = 1 # []"
    by (simp_all add: example_resolved_def)
  have e: "still_lcv_patch example_resolved [0, 1, 2, 3] = []"
    by (simp add: still_lcv_patch_def example_resolved_def)
  from e get_patch_skip [OF p s e] show ?thesis by (rule conjI)
qed


subsection \<open>The tally of a voxel\<close>

lemma index_of_Some: "index_of x xs = Some k \<Longrightarrow> k < length xs \<and> xs ! k = x"
  by (induction xs arbitrary: k) (auto split: if_splits option.splits)

text \<open>
  Claim C4, as amended. After a tally increment for a voxel, the working label of the voxel
  is a label of highest count in the voxel's tally, and when several labels share the
  highest count it is the one that comes first in \<^verbatim>\<open>label_values\<close> (the smallest label
  value). Label values are taken in the range that \<^verbatim>\<open>np.int16\<close> stores unchanged.
\<close>

theorem tally_vote_working_label:
  assumes "tally_vote st p l = Inr st'"
    and "length (label_count st ! p) = length (label_values st)"
    and "\<forall>v\<in>set (label_values st). 0 \<le> v \<and> v < 32768"
  shows "\<exists>k i. index_of l (label_values st) = Some i \<and>
           label_count st' ! p = (label_count st ! p)[i := uint16_incr (label_count st ! p ! i)] \<and>
           k < length (label_values st) \<and>
           new_labels st' ! p = label_values st ! k \<and>
           (\<forall>j<length (label_values st). label_count st' ! p ! j \<le> label_count st' ! p ! k) \<and>
           (\<forall>j<k. label_count st' ! p ! j < label_count st' ! p ! k)"
proof -
  from assms(1) obtain i where i: "index_of l (label_values st) = Some i"
    and p: "p < length (label_count st)" "p < length (new_labels st)"
    and st': "st' = st \<lparr> label_count := (label_count st)
                  [p := (label_count st ! p)[i := uint16_incr (label_count st ! p ! i)]],
                new_labels := (new_labels st)
                  [p := to_int16 (label_values st ! argmax_list
                     ((label_count st ! p)[i := uint16_incr (label_count st ! p ! i)]))] \<rparr>"
    by (auto simp: tally_vote_def Let_def split: option.splits if_splits)
  let ?c = "(label_count st ! p)[i := uint16_incr (label_count st ! p ! i)]"
  let ?k = "argmax_list ?c"
  from index_of_Some [OF i] have il: "i < length (label_values st)" by simp
  have len: "length ?c = length (label_values st)" using assms(2) by simp
  with il have ne: "?c \<noteq> []" by auto
  note spec = argmax_list_spec [OF ne]
  have k: "?k < length (label_values st)" using spec len by simp
  with assms(3) have "0 \<le> label_values st ! ?k" "label_values st ! ?k < 32768"
    by (simp_all add: nth_mem)
  then have w: "to_int16 (label_values st ! ?k) = label_values st ! ?k"
    by (rule to_int16_id)
  have c: "label_count st' ! p = ?c" using p st' by simp
  have n: "new_labels st' ! p = label_values st ! ?k" using p st' w by simp
  have mx: "\<forall>j<length (label_values st). ?c ! j \<le> ?c ! ?k"
    using spec len by (metis nth_mem)
  have fs: "\<forall>j<?k. ?c ! j < ?c ! ?k" using spec by blast
  show ?thesis
    using i c k n mx fs by (intro exI [of _ ?k] exI [of _ i]) simp
qed

text \<open>A single low-confidence voxel with an empty tally.\<close>

definition example_tally :: awol where
  "example_tally =
     \<lparr> beta = - 0.2, mixing_ratio = 0, patch_length = 5, shape = (1, 1, 1),
       label_values = [0, 1], mode0 = [0], mode1 = [1],
       labels = [- 1], intensity = [10],
       lcv = [0], no_lcv = False,
       neighbors_small = neighbors (1, 1, 1) 1 [0] 1, neighbors_big = Map.empty,
       label_count = [[0, 0]], new_labels = [- 1],
       seeds = [], patches = [], lcvp = [], patch_stats = [],
       do_walk = False, seq = [] \<rparr>"

text \<open>A vote for label 0 followed by a vote for label 1 ties the two labels; the working
  label is 0, not the label 1 that was incremented last.\<close>

theorem tally_tie_counterexample:
  "map_sum id (\<lambda>st. (label_count st ! 0, new_labels st ! 0))
     (bind_err (tally_vote example_tally 0 0) (\<lambda>st. tally_vote st 0 1))
   = Inr ([1, 1], 0)"
  by (simp add: tally_vote_def example_tally_def Let_def uint16_incr_def to_int16_def)

theorem tally_vote_working_label_witness:
  "\<exists>st'. tally_vote example_tally 0 1 = Inr st' \<and>
     (\<exists>k i. index_of 1 (label_values example_tally) = Some i \<and>
           label_count st' ! 0 =
             (label_count example_tally ! 0)[i := uint16_incr (label_count example_tally ! 0 ! i)] \<and>
           k < length (label_values example_tally) \<and>
           new_labels st' ! 0 = label_values example_tally ! k \<and>
           (\<forall>j<length (label_values example_tally).
               label_count st' ! 0 ! j \<le> label_count st' ! 0 ! k) \<and>
           (\<forall>j<k. label_count st' ! 0 ! j < label_count st' ! 0 ! k))"
proof -
  have "\<not> isl (tally_vote example_tally 0 1)"
    by (simp add: tally_vote_def example_tally_def Let_def)
  from not_isl_Inr [OF this] obtain st' where t: "tally_vote example_tally 0 1 = Inr st'"
    by blast
  have l: "length (label_count example_tally ! 0) = length (label_values example_tally)"
    by (simp add: example_tally_def)
  have r: "\<forall>v\<in>set (label_values example_tally). 0 \<le> v \<and> v < 32768"
    by (simp add: example_tally_def)
  from t tally_vote_working_label [OF t l r] show ?thesis by blast
qed

subsection \<open>The seed queue\<close>



lemma find_lcv_lcv:
  "lcv (find_lcv st) = filter (\<lambda>p. labels st ! p = - 1) [0..<length (labels st)]"
  by (simp add: find_lcv_def Let_def)


lemma neighbors_Some:
  "p \<in> set lcvs \<Longrightarrow>
   neighbors shp nvox lcvs r2 p = Some (sort (remove1 p (query_ball shp nvox r2 p)))"
  by (simp add: neighbors_def map_of_map_restrict)


lemma find_lcv_neighbors_small:
  assumes "p \<in> set (lcv (find_lcv st))"
  shows "neighbors_small (find_lcv st) p =
         Some (sort (remove1 p (query_ball (shape st) (length (labels st)) 1 p)))"
proof -
  from assms have m: "p \<in> set (filter (\<lambda>p. labels st ! p = - 1) [0..<length (labels st)])"
    by (simp add: find_lcv_lcv)
  then have ne: "filter (\<lambda>p. labels st ! p = - 1) [0..<length (labels st)] \<noteq> []"
    by (metis empty_iff empty_set)
  from neighbors_Some [OF m] ne show ?thesis
    by (simp add: find_lcv_def Let_def)
qed






subsection \<open>The vote of a visit\<close>






subsection \<open>Runs without relabeling\<close>

lemma fill_loop_nth:
  "p < length nl \<Longrightarrow>
   length (fill_loop m0 still i vals nl) = length nl \<and>
   fill_loop m0 still i vals nl ! p =
     (if p \<in> set still \<and> i \<le> m0 ! p \<and> m0 ! p < i + length vals
      then to_int16 (vals ! (m0 ! p - i)) else nl ! p)"
proof (induction vals arbitrary: i nl)
  case Nil
  then show ?case by simp
next
  case (Cons v vals)
  let ?l = "map (\<lambda>q. if q \<in> set still \<and> m0 ! q = i then to_int16 v else nl ! q)
              [0..<length nl]"
  have len: "p < length ?l" using Cons.prems by simp
  show ?case
  proof (cases "m0 ! p = i")
    case True
    with Cons.IH [OF len, of "Suc i"] Cons.prems show ?thesis by simp
  next
    case False
    with Cons.IH [OF len, of "Suc i"] Cons.prems show ?thesis
      by (auto simp: Suc_diff_le nth_Cons')
  qed
qed

lemma fill_loop_length [simp]: "length (fill_loop m0 still i vals nl) = length nl"
  by (induction vals arbitrary: i nl) simp_all

lemma find_seeds_fields:
  assumes "find_seeds st = Inr st'"
  shows "new_labels st' = new_labels st \<and> mode0 st' = mode0 st \<and>
         label_values st' = label_values st \<and> labels st' = labels st"
  using assms
  by (cases "seed_scan st (lcv st) []") (auto simp: find_seeds_def Let_def split: if_splits)

lemma seeds_loop_Nil: "seeds st = [] \<Longrightarrow> seeds_loop st = Inr st"
  by (subst seeds_loop.simps) simp

text \<open>The majority-vote volume: at every voxel the label at the majority index.\<close>

definition majority_vote :: "awol \<Rightarrow> nat \<Rightarrow> int list" where
  "majority_vote st n = map (\<lambda>p. label_values st ! (mode0 st ! p)) [0..<n]"

text \<open>
  Claim C6. When the constructor leaves no low-confidence voxel, or \<^verbatim>\<open>find_seeds\<close> finds no
  seed, \<^verbatim>\<open>run\<close> returns the majority-vote volume: every voxel holds the label at the first
  index of its largest vote count. In the second case the seed loop ends at once and only
  \<^verbatim>\<open>final_labels\<close> writes to the working volume. Label values are taken in the range that
  \<^verbatim>\<open>np.int16\<close> stores unchanged.
\<close>

theorem run_majority_vote:
  assumes init: "awol_init imgs brain shp b mr pl same thr0 = Inr st"
    and shp: "\<forall>img\<in>set imgs. length img = n"
    and rng: "\<forall>v\<in>set (label_values st). 0 \<le> v \<and> v < 32768"
    and none: "no_lcv (find_lcv st) \<or>
               (\<exists>st2. find_seeds (find_lcv st) = Inr st2 \<and> seeds st2 = [])"
  shows "run st = Inr (majority_vote st n) \<and>
         (\<forall>p<n. \<exists>votes. count_votes imgs = Inr (label_values st, votes) \<and>
                  mode0 st ! p = argmax_list (column votes p))"
proof -
  have vox: "length (labels st) = n \<and> mode0 st ! p < length (label_values st) \<and>
     (labels st ! p = - 1 \<or> labels st ! p = label_values st ! (mode0 st ! p)) \<and>
     to_int16 (label_values st ! (mode0 st ! p)) = label_values st ! (mode0 st ! p) \<and>
     (\<exists>votes. count_votes imgs = Inr (label_values st, votes) \<and>
                  mode0 st ! p = argmax_list (column votes p))"
    if p: "p < n" for p
  proof -
    from init shp p obtain votes thr where
      h: "count_votes imgs = Inr (label_values st, votes)"
      "length (labels st) = n"
      "mode0 st ! p = argmax_list (column votes p)"
      "mode0 st ! p < length (label_values st)"
      "labels st ! p =
       (if n_labels votes p = 1 \<or>
           (1 / real (n_labels votes p) + thr ! (mode0 st ! p)) * real (length imgs)
             \<le> real (votes ! (mode0 st ! p) ! p)
        then to_int16 (label_values st ! (mode0 st ! p)) else - 1)"
      by (rule init_voxel)
    from h(4) rng have "0 \<le> label_values st ! (mode0 st ! p)"
      "label_values st ! (mode0 st ! p) < 32768"
      by (simp_all add: nth_mem)
    then have w: "to_int16 (label_values st ! (mode0 st ! p)) = label_values st ! (mode0 st ! p)"
      by (rule to_int16_id)
    from h w show ?thesis by auto
  qed
  have modes: "\<forall>p<n. \<exists>votes. count_votes imgs = Inr (label_values st, votes) \<and>
                  mode0 st ! p = argmax_list (column votes p)"
    using vox by blast
  let ?lcvs = "filter (\<lambda>p. labels st ! p = - 1) [0..<length (labels st)]"
  have nl: "no_lcv (find_lcv st) \<longleftrightarrow> ?lcvs = []"
    by (simp add: find_lcv_def Let_def)
  have pos: "0 < n"
  proof -
    from init obtain votes thr where
      cv: "count_votes imgs = Inr (label_values st, votes)"
      and ne: "label_values st \<noteq> []"
      by (rule awol_init_Inr)
    from count_votes_labels [OF cv] ne have "hd imgs \<noteq> []" "imgs \<noteq> []" by auto
    with shp show ?thesis by (cases imgs) auto
  qed
  have n0: "length (labels st) = n" using vox [OF pos] by simp
  have "run st = Inr (majority_vote st n)"
  proof (cases "no_lcv (find_lcv st)")
    case True
    then have all: "\<forall>p<n. labels st ! p \<noteq> - 1"
      using nl n0 by (auto simp: filter_empty_conv)
    have "labels st = majority_vote st n"
    proof (rule nth_equalityI)
      show "length (labels st) = length (majority_vote st n)"
        using n0 by (simp add: majority_vote_def)
    next
      fix p assume "p < length (labels st)"
      then have p: "p < n" using n0 by simp
      with all vox [OF p] show "labels st ! p = majority_vote st n ! p"
        by (simp add: majority_vote_def)
    qed
    moreover have "run st = Inr (labels st)"
      using True nl by (simp add: run_def Let_def find_lcv_def)
    ultimately show ?thesis by simp
  next
    case False
    with none obtain st2 where fs: "find_seeds (find_lcv st) = Inr st2" and sd: "seeds st2 = []"
      by blast
    from False nl have ne: "?lcvs \<noteq> []" by simp
    from find_seeds_fields [OF fs] ne
    have f: "new_labels st2 = labels st" "mode0 st2 = mode0 st"
      "label_values st2 = label_values st"
      by (simp_all add: find_lcv_def Let_def)
    have r: "run st = Inr (labels (final_labels st2))"
      using False fs seeds_loop_Nil [OF sd] by (simp add: run_def Let_def)
    have "labels (final_labels st2) = majority_vote st n"
    proof (rule nth_equalityI)
      show "length (labels (final_labels st2)) = length (majority_vote st n)"
        using n0 by (simp add: final_labels_def Let_def f majority_vote_def)
    next
      fix p assume "p < length (labels (final_labels st2))"
      then have p: "p < n"
        using n0 by (simp add: final_labels_def Let_def f)
      then have pl: "p < length (labels st)" using n0 by simp
      from fill_loop_nth [OF pl, of "mode0 st" ?lcvs 0 "label_values st"] vox [OF p] pl
      show "labels (final_labels st2) ! p = majority_vote st n ! p"
        by (auto simp: final_labels_def Let_def f majority_vote_def)
    qed
    with r show ?thesis by simp
  qed
  with modes show ?thesis by blast
qed

lemma example_b_fields:
  "bind_err example_b
     (\<lambda>st. map_sum id
        (\<lambda>s. (label_values st, mode0 st, no_lcv (find_lcv st), seeds s))
        (find_seeds (find_lcv st)))
   = Inr ([0, 1], [0, 0, 0, 1], False, [])"
  by code_simp

theorem run_majority_vote_witness:
  "\<exists>st. example_b = Inr st \<and> \<not> no_lcv (find_lcv st) \<and> run st = Inr [0, 0, 0, 1]"
proof -
  from example_b_fields obtain st where i: "example_b = Inr st"
    and ms: "map_sum id
        (\<lambda>s. (label_values st, mode0 st, no_lcv (find_lcv st), seeds s))
        (find_seeds (find_lcv st))
       = Inr ([0, 1], [0, 0, 0, 1], False, [])"
    by (rule bind_err_Inr_E)
  from ms obtain st2 where f: "find_seeds (find_lcv st) = Inr st2"
    and tup: "(label_values st, mode0 st, no_lcv (find_lcv st), seeds st2)
       = ([0, 1], [0, 0, 0, 1], False, [])"
    by (rule map_sum_Inr_E)
  from tup have s: "label_values st = [0, 1]" "mode0 st = [0, 0, 0, 1]"
    "\<not> no_lcv (find_lcv st)" "seeds st2 = []"
    by simp_all
  have l: "\<forall>img\<in>set [[0, 0, 0, 1], [0, 1, 1, 1 :: int]]. length img = 4" by simp
  have r: "\<forall>v\<in>set (label_values st). 0 \<le> v \<and> v < 32768" by (simp add: s)
  have n: "no_lcv (find_lcv st) \<or>
           (\<exists>st2. find_seeds (find_lcv st) = Inr st2 \<and> seeds st2 = [])"
    using f s(4) by blast
  from run_majority_vote [OF i [unfolded example_b_def] l r n]
  have "run st = Inr (majority_vote st 4)" by (rule conjunct1)
  moreover have "majority_vote st 4 = [0, 0, 0, 1]"
    by (simp add: majority_vote_def s upt_conv_Cons)
  ultimately have "run st = Inr [0, 0, 0, 1]" by simp
  with i s(3) show ?thesis by blast
qed

subsection \<open>A walk without candidate labels\<close>

lemma example_a_fields:
  "bind_err example_a
     (\<lambda>st. map_sum id
        (\<lambda>s. (no_lcv (find_lcv st), labels s, new_labels s, patches s, seeds s, label_values s,
              intensity s, neighbors_small s 1, neighbors_small s 2, shape s))
        (find_seeds (find_lcv st)))
   = Inr (False, [0, - 1, - 1, 1], [0, - 1, - 1, 1], [[0, 1, 2, 3], [0, 1, 2, 3]], [2, 1], [0, 1],
          [10, 20, 30, 40], Some [0, 2], Some [1, 3], (1, 1, 4))"
  by code_simp

text \<open>
  Claim C10 on the input \<open>example_a\<close>. The patch of the first seed still holds unresolved
  voxels, so \<^verbatim>\<open>get_patch\<close> sets \<^verbatim>\<open>do_walk\<close>; but the patch holds a single resolved voxel of
  each label, \<^verbatim>\<open>patch_stats\<close> stays empty, the loop over its keys in \<^verbatim>\<open>mrf_potentials\<close> never
  assigns \<^verbatim>\<open>new_label\<close>, and the run ends in \<^verbatim>\<open>UnboundLocalError\<close>.
\<close>

theorem empty_patch_stats_raises:
  "\<exists>st st2 st3.
     example_a = Inr st \<and>
     find_seeds (find_lcv st) = Inr st2 \<and>
     get_patch st2 = Inr st3 \<and> do_walk st3 \<and> patch_stats st3 = [] \<and>
     run st = Inl UnboundLocalError"
proof -
  from example_a_fields obtain st where i: "example_a = Inr st"
    and ms: "map_sum id
        (\<lambda>s. (no_lcv (find_lcv st), labels s, new_labels s, patches s, seeds s, label_values s,
              intensity s, neighbors_small s 1, neighbors_small s 2, shape s))
        (find_seeds (find_lcv st))
       = Inr (False, [0, - 1, - 1, 1], [0, - 1, - 1, 1], [[0, 1, 2, 3], [0, 1, 2, 3]], [2, 1],
          [0, 1], [10, 20, 30, 40], Some [0, 2], Some [1, 3], (1, 1, 4))"
    by (rule bind_err_Inr_E)
  from ms obtain st2 where f: "find_seeds (find_lcv st) = Inr st2"
    and tup: "(no_lcv (find_lcv st), labels st2, new_labels st2, patches st2, seeds st2,
          label_values st2, intensity st2, neighbors_small st2 1, neighbors_small st2 2,
          shape st2)
       = (False, [0, - 1, - 1, 1], [0, - 1, - 1, 1], [[0, 1, 2, 3], [0, 1, 2, 3]], [2, 1],
          [0, 1], [10, 20, 30, 40], Some [0, 2], Some [1, 3], (1, 1, 4))"
    by (rule map_sum_Inr_E)
  from tup have s: "no_lcv (find_lcv st) = False" "labels st2 = [0, - 1, - 1, 1]"
    "new_labels st2 = [0, - 1, - 1, 1]" "patches st2 = [[0, 1, 2, 3], [0, 1, 2, 3]]"
    "seeds st2 = [2, 1]" "label_values st2 = [0, 1]" "intensity st2 = [10, 20, 30, 40]"
    "neighbors_small st2 1 = Some [0, 2]" "neighbors_small st2 2 = Some [1, 3]"
    "shape st2 = (1, 1, 4)"
    by simp_all
  define st3 where "st3 = st2 \<lparr> lcvp := [1, 2], patch_stats := [], do_walk := True,
     patches := [[0, 1, 2, 3]] \<rparr>"
  have g: "get_patch st2 = Inr st3"
    by (simp add: get_patch_def still_lcv_patch_def s st3_def)
  have d: "do_walk st3" by (simp add: st3_def)
  have w: "weight_matrix st3 = Inr [[0, 10], [0, 0]]"
    using s(8,9)
    by (simp add: weight_matrix_def edge_weight_def st3_def s)
  have m: "minimum_spanning_tree [[0, 10], [0, 0]] = [[0, 10], [0, 0]]"
    by (simp add: minimum_spanning_tree_def csr_entries_def)
  have c: "csr_entries [[0, 10], [0, 0 :: real]] = [(0, 1)]"
    by (simp add: csr_entries_def)
  have k: "mst_walk [[0, 10], [0, 0]] [(0, Suc 0)] [Suc 0] None = Inr [Suc 0, 0]"
    by (subst mst_walk.simps) simp
  define st4 where "st4 = st3 \<lparr> seq := [2, 1], seeds := [1] \<rparr>"
  have q: "get_mst_sequence st3 = Inr st4"
    by (simp add: get_mst_sequence_def Let_def w m c k) (simp add: st3_def st4_def s m c k)
  have p: "mrf_potentials st4 = Inl UnboundLocalError"
    by (simp add: mrf_potentials_def st4_def st3_def s)
  have l: "seeds_loop st2 = Inl UnboundLocalError"
    by (subst seeds_loop.simps) (simp add: s g q p d)
  have r: "run st = Inl UnboundLocalError"
    by (simp add: run_def s f l)
  from i f g r show ?thesis
    by (intro exI [of _ st] exI [of _ st2] exI [of _ st3]) (simp add: st3_def)
qed

subsection \<open>A visiting sequence that leaves a voxel out\<close>

lemma example_c_fields:
  "bind_err example_c
     (\<lambda>st. map_sum id
        (\<lambda>s. (no_lcv (find_lcv st), labels s, new_labels s, patches s, seeds s, label_values s,
              intensity s, neighbors_small s 2, neighbors_small s 3, shape s))
        (find_seeds (find_lcv st)))
   = Inr (False, [0, 0, - 1, - 1, 1, 1], [0, 0, - 1, - 1, 1, 1],
          [[0, 1, 2, 3, 4, 5], [0, 1, 2, 3, 4, 5]], [3, 2], [0, 1],
          [10, 20, 50, 50, 80, 90], Some [1, 3], Some [2, 4], (1, 1, 6))"
  by code_simp

text \<open>
  Claim C3 on the input \<open>example_c\<close>. The patch of the first seed, voxel 3, holds the two
  unresolved voxels 2 and 3. They are direct neighbours of equal intensity, so the only
  entry of the weight matrix is zero, which the spanning-tree routine reads as no edge:
  the tree has no edge and the sequence is the seed alone. Voxel 2 is left out.
\<close>

theorem mst_sequence_omits_voxel:
  "\<exists>st st2 st3 st4.
     example_c = Inr st \<and> find_seeds (find_lcv st) = Inr st2 \<and>
     hd (seeds st2) = 3 \<and> still_lcv_patch st2 (hd (patches st2)) = [2, 3] \<and>
     get_patch st2 = Inr st3 \<and> do_walk st3 \<and>
     get_mst_sequence st3 = Inr st4 \<and> seq st4 = [3]"
proof -
  from example_c_fields obtain st where i: "example_c = Inr st"
    and ms: "map_sum id
        (\<lambda>s. (no_lcv (find_lcv st), labels s, new_labels s, patches s, seeds s, label_values s,
              intensity s, neighbors_small s 2, neighbors_small s 3, shape s))
        (find_seeds (find_lcv st))
       = Inr (False, [0, 0, - 1, - 1, 1, 1], [0, 0, - 1, - 1, 1, 1],
          [[0, 1, 2, 3, 4, 5], [0, 1, 2, 3, 4, 5]], [3, 2], [0, 1],
          [10, 20, 50, 50, 80, 90], Some [1, 3], Some [2, 4], (1, 1, 6))"
    by (rule bind_err_Inr_E)
  from ms obtain st2 where f: "find_seeds (find_lcv st) = Inr st2"
    and tup: "(no_lcv (find_lcv st), labels st2, new_labels st2, patches st2, seeds st2,
          label_values st2, intensity st2, neighbors_small st2 2, neighbors_small st2 3,
          shape st2)
       = (False, [0, 0, - 1, - 1, 1, 1], [0, 0, - 1, - 1, 1, 1],
          [[0, 1, 2, 3, 4, 5], [0, 1, 2, 3, 4, 5]], [3, 2], [0, 1],
          [10, 20, 50, 50, 80, 90], Some [1, 3], Some [2, 4], (1, 1, 6))"
    by (rule map_sum_Inr_E)
  from tup have s: "labels st2 = [0, 0, - 1, - 1, 1, 1]"
    "new_labels st2 = [0, 0, - 1, - 1, 1, 1]"
    "patches st2 = [[0, 1, 2, 3, 4, 5], [0, 1, 2, 3, 4, 5]]"
    "seeds st2 = [3, 2]" "label_values st2 = [0, 1]"
    "intensity st2 = [10, 20, 50, 50, 80, 90]"
    "neighbors_small st2 2 = Some [1, 3]" "neighbors_small st2 3 = Some [2, 4]"
    "shape st2 = (1, 1, 6)"
    by simp_all
  define st3 where "st3 = st2 \<lparr> lcvp := [2, 3],
     patch_stats := [(0, np_mean [10, 20], np_std [10, 20]),
                     (1, np_mean [80, 90], np_std [80, 90])],
     do_walk := True, patches := [[0, 1, 2, 3, 4, 5]] \<rparr>"
  have t: "still_lcv_patch st2 (hd (patches st2)) = [2, 3]"
    by (simp add: still_lcv_patch_def s)
  have g: "get_patch st2 = Inr st3"
    by (simp add: get_patch_def still_lcv_patch_def s st3_def Let_def)
  have d: "do_walk st3" by (simp add: st3_def)
  have w: "weight_matrix st3 = Inr [[0, 0], [0, 0]]"
    using s(7,8)
    by (simp add: weight_matrix_def edge_weight_def st3_def s)
  have m: "minimum_spanning_tree [[0, 0], [0, 0]] = [[0, 0], [0, 0]]"
    by (simp add: minimum_spanning_tree_def csr_entries_def)
  have c: "csr_entries [[0, 0], [0, 0 :: real]] = []"
    by (simp add: csr_entries_def)
  define st4 where "st4 = st3 \<lparr> seq := [3], seeds := [2] \<rparr>"
  have s3: "seeds st3 = [3, 2]" "lcvp st3 = [2, 3]" by (simp_all add: st3_def s)
  have q: "get_mst_sequence st3 = Inr st4"
    by (simp add: get_mst_sequence_def Let_def w m c s3 st4_def)
  have e: "seq st4 = [3]" by (simp add: st4_def)
  from i f g d q e t s(4) show ?thesis
    by (intro exI [of _ st] exI [of _ st2] exI [of _ st3] exI [of _ st4]) simp
qed

end
